theory Spec2Isabelle
  imports Main "HOL-Library.Word"
begin

unbundle bit_operations_syntax

section \<open>Data model\<close>

text \<open>
  A byte of the serial link is an unsigned 8-bit value. The adapter never works on the
  bytes themselves: \<open>_read\<close> turns what the serial port returned into a lowercase
  hexadecimal string (two characters per byte), and every later step parses such strings
  again with Python's \<open>int\<close>.
\<close>

type_synonym byte = "8 word"

datatype error =
    ChecksumFailed
  | ValueError
  | KeyError
  | IndexError
  | SerialException
  | PlainException

text \<open>
  The serial port (class \<open>serial.Serial\<close> of pyserial, an external library): the three
  options it is opened with, whether it is open, and the bytes the device will still
  deliver. When the device has nothing more to deliver, a read with a timeout returns the
  bytes it got so far, possibly none.
\<close>

record serial =
  port :: string
  baudrate :: int
  timeout :: int
  is_open :: bool
  pending :: "byte list"

record adapter =
  sensor :: serial
  skip_raw_wave :: bool
  major :: int

text \<open>A decoded value is an integer, or for the composite field a nested dictionary.\<close>

datatype pyval = IntV int | DictV "(string \<times> int) list"

type_synonym reading_set = "(string \<times> pyval) list"

section \<open>Python primitives used by the adapter\<close>

text \<open>
  \<open>d[k] = v\<close> on a dictionary kept in insertion order: an existing key keeps its place
  and gets the new value, a new key goes to the end.
\<close>

fun setitem :: "('k \<times> 'v) list \<Rightarrow> 'k \<Rightarrow> 'v \<Rightarrow> ('k \<times> 'v) list" where
  "setitem [] k v = [(k, v)]"
| "setitem ((k', v') # d) k v = (if k' = k then (k, v) # d else (k', v') # setitem d k v)"

definition keys :: "('k \<times> 'v) list \<Rightarrow> 'k list" where
  "keys d = map fst d"

text \<open>\<open>xs[i]\<close> for a non-negative index: IndexError past the end.\<close>

definition getitem :: "'a list \<Rightarrow> nat \<Rightarrow> error + 'a" where
  "getitem xs i = (if i < length xs then Inr (xs ! i) else Inl IndexError)"

text \<open>\<open>xs[start:end]\<close> for non-negative bounds: never fails, may be shorter than asked.\<close>

definition slice :: "'a list \<Rightarrow> nat \<Rightarrow> nat \<Rightarrow> 'a list" where
  "slice xs start end = take (end - start) (drop start xs)"

text \<open>
  \<open>int(s, base)\<close> and \<open>int(s)\<close> (base 10) on the strings this program builds, which
  consist of hexadecimal digits only: the empty string and a digit outside the base raise
  ValueError. (Python's \<open>int\<close> also accepts signs, blanks, underscores and a \<open>0x\<close>
  prefix; the hex encoder never produces them, and the model rejects them.)
\<close>

definition digit_val :: "char \<Rightarrow> nat option" where
  "digit_val c =
     (if c \<in> set ''0123456789'' then Some (of_char c - 48)
      else if c \<in> set ''abcdef'' then Some (of_char c - 87)
      else if c \<in> set ''ABCDEF'' then Some (of_char c - 55)
      else None)"

fun digits_val :: "nat \<Rightarrow> string \<Rightarrow> nat \<Rightarrow> nat option" where
  "digits_val base [] acc = Some acc"
| "digits_val base (c # cs) acc =
     (case digit_val c of
        None \<Rightarrow> None
      | Some d \<Rightarrow> if d < base then digits_val base cs (acc * base + d) else None)"

definition py_int :: "string \<Rightarrow> nat \<Rightarrow> error + int" where
  "py_int s base =
     (if s = [] then Inl ValueError
      else case digits_val base s 0 of
             None \<Rightarrow> Inl ValueError
           | Some n \<Rightarrow> Inr (int n))"

text \<open>\<open>[int(k, 16) for k in xs]\<close>: the first element that does not parse raises.\<close>

fun ints16 :: "string list \<Rightarrow> error + int list" where
  "ints16 [] = Inr []"
| "ints16 (k # ks) =
     (case py_int k 16 of
        Inl e \<Rightarrow> Inl e
      | Inr n \<Rightarrow> (case ints16 ks of Inl e \<Rightarrow> Inl e | Inr ns \<Rightarrow> Inr (n # ns)))"

text \<open>The hex codec: two lowercase digits per byte, high nibble first.\<close>

definition hexdigit :: "nat \<Rightarrow> char" where
  "hexdigit n = ''0123456789abcdef'' ! n"

definition hex_of_byte :: "byte \<Rightarrow> string" where
  "hex_of_byte b = [hexdigit (unat b div 16), hexdigit (unat b mod 16)]"

text \<open>
  \<open>serial.Serial(port, baudrate, timeout=...)\<close> opens the port at once; the bytes the
  device is going to send are the last argument of the model.
\<close>

definition Serial :: "string \<Rightarrow> int \<Rightarrow> int \<Rightarrow> byte list \<Rightarrow> serial" where
  "Serial p b t incoming =
     \<lparr>port = p, baudrate = b, timeout = t, is_open = True, pending = incoming\<rparr>"

text \<open>
  \<open>sensor.read(n)\<close>: up to \<open>n\<close> of the pending bytes (fewer when the device falls
  silent and the timeout expires); a closed port raises.
\<close>

definition sensor_read :: "serial \<Rightarrow> nat \<Rightarrow> (error + byte list) \<times> serial" where
  "sensor_read s n =
     (if is_open s then (Inr (take n (pending s)), s\<lparr>pending := drop n (pending s)\<rparr>)
      else (Inl SerialException, s))"

section \<open>The adapter\<close>

definition waves :: "string list" where
  "waves = [''delta'', ''theta'', ''low_alpha'', ''high_alpha'',
            ''low_beta'', ''high_beta'', ''low_gamma'', ''mid_gamma'']"

text \<open>
  \<open>__init__\<close>. The interpreter's major version is an input of the model, since the
  constructor branches on it. The serial port is opened with the literal 10 as timeout.
\<close>

definition init :: "string \<Rightarrow> int \<Rightarrow> int \<Rightarrow> bool \<Rightarrow> int \<Rightarrow> byte list \<Rightarrow> error + adapter" where
  "init p b t skip version incoming =
     (let self = \<lparr>sensor = Serial p b 10 incoming, skip_raw_wave = skip, major = version\<rparr>
      in if version = 3 then Inr self
         else if version = 2 then Inr self
         else Inl PlainException)"

definition encode_v2 :: "byte list \<Rightarrow> string" where
  "encode_v2 input_bytes = concat (map hex_of_byte input_bytes)"

definition encode_v3 :: "byte list \<Rightarrow> string" where
  "encode_v3 input_bytes = concat (map hex_of_byte input_bytes)"

text \<open>\<open>self.encode\<close>, as the constructor binds it.\<close>

definition encode :: "adapter \<Rightarrow> byte list \<Rightarrow> string" where
  "encode self = (if major self = 3 then encode_v3 else encode_v2)"

text \<open>
  \<open>_read(n)\<close> and \<open>_read(n, to_int=True)\<close>; the two have different result types, so
  they are two functions here.
\<close>

definition read_str :: "adapter \<Rightarrow> nat \<Rightarrow> (error + string) \<times> adapter" where
  "read_str self bytes_leng =
     (case sensor_read (sensor self) bytes_leng of
        (Inl e, s) \<Rightarrow> (Inl e, self\<lparr>sensor := s\<rparr>)
      | (Inr result, s) \<Rightarrow> (Inr (encode self result), self\<lparr>sensor := s\<rparr>))"

definition read_int :: "adapter \<Rightarrow> nat \<Rightarrow> (error + int) \<times> adapter" where
  "read_int self bytes_leng =
     (case read_str self bytes_leng of
        (Inl e, self') \<Rightarrow> (Inl e, self')
      | (Inr result, self') \<Rightarrow> (py_int result 16, self'))"

text \<open>
  \<open>_read_packet\<close>: the loop over \<open>range(0, length)\<close>, then the checksum test. The
  messages the adapter prints (here and in \<open>values\<close>) are left out of the model.
\<close>

fun read_packet_loop ::
  "nat \<Rightarrow> adapter \<Rightarrow> string list \<Rightarrow> int \<Rightarrow> (error + string list \<times> int) \<times> adapter" where
  "read_packet_loop 0 self result checksum = (Inr (result, checksum), self)"
| "read_packet_loop (Suc n) self result checksum =
     (case read_str self 1 of
        (Inl e, self') \<Rightarrow> (Inl e, self')
      | (Inr v, self') \<Rightarrow>
          (case py_int v 16 of
             Inl e \<Rightarrow> (Inl e, self')
           | Inr k \<Rightarrow> read_packet_loop n self' (result @ [v]) (checksum + k)))"

definition read_packet :: "adapter \<Rightarrow> int \<Rightarrow> (error + string list) \<times> adapter" where
  "read_packet self len =
     (case read_packet_loop (nat len) self [] 0 of
        (Inl e, self') \<Rightarrow> (Inl e, self')
      | (Inr (result, checksum), self') \<Rightarrow>
          (let checksum1 = checksum AND 255;
               checksum2 = NOT checksum1 AND 255
           in case read_int self' 1 of
                (Inl e, self'') \<Rightarrow> (Inl e, self'')
              | (Inr expected_checksum, self'') \<Rightarrow>
                  if checksum2 \<noteq> expected_checksum then (Inl ChecksumFailed, self'')
                  else (Inr result, self'')))"

text \<open>
  \<open>_wait_for_ready_state\<close>. On a mismatch the third read goes into \<open>b\<close>, and the next
  round of the loop reads \<open>a\<close> and \<open>b\<close> afresh. The loop need not end (an open port that
  stays silent), so not returning is the value \<open>None\<close>. The result is \<open>True\<close> after the
  sync bytes, and \<open>False\<close> stands for the \<open>None\<close> Python returns when the port is closed.
\<close>

partial_function (option) wait_for_ready_state ::
  "adapter \<Rightarrow> ((error + bool) \<times> adapter) option" where
  "wait_for_ready_state self =
     (if is_open (sensor self) then
        (case read_str self 1 of
           (Inl e, self1) \<Rightarrow> Some (Inl e, self1)
         | (Inr a, self1) \<Rightarrow>
             (case read_str self1 1 of
                (Inl e, self2) \<Rightarrow> Some (Inl e, self2)
              | (Inr b, self2) \<Rightarrow>
                  if a \<noteq> ''aa'' \<or> b \<noteq> ''aa'' then
                    (case read_str self2 1 of
                       (Inl e, self3) \<Rightarrow> Some (Inl e, self3)
                     | (Inr b', self3) \<Rightarrow> wait_for_ready_state self3)
                  else Some (Inr True, self2)))
      else Some (Inr False, self))"

declare wait_for_ready_state.simps [code]

section \<open>The payload decoder\<close>

definition big_endian :: "int list \<Rightarrow> error + int" where
  "big_endian byte_input =
     (case getitem byte_input 0 of
        Inl e \<Rightarrow> Inl e
      | Inr b0 \<Rightarrow>
          (case getitem byte_input 1 of
             Inl e \<Rightarrow> Inl e
           | Inr b1 \<Rightarrow>
               (case getitem byte_input 2 of
                  Inl e \<Rightarrow> Inl e
                | Inr b2 \<Rightarrow> Inr (b0 * 2 ^ 16 + b1 * 2 ^ 8 + b2))))"

text \<open>Each decode routine returns the value and the next index.\<close>

definition read_default_value :: "string list \<Rightarrow> nat \<Rightarrow> error + pyval \<times> nat" where
  "read_default_value payload i =
     (let i1 = i + 1
      in case getitem payload i1 of
           Inl e \<Rightarrow> Inl e
         | Inr s \<Rightarrow>
             (case py_int s 16 of
                Inl e \<Rightarrow> Inl e
              | Inr v \<Rightarrow> Inr (IntV v, i1 + 1)))"

text \<open>
  \<open>raw_wave\<close>. \<open>a, b = [...]\<close> needs exactly two elements and raises ValueError
  otherwise; \<open>int(payload[i + 1])\<close> reads the hex string as a decimal numeral.
\<close>

definition raw_wave :: "string list \<Rightarrow> nat \<Rightarrow> error + pyval \<times> nat" where
  "raw_wave payload i =
     (case getitem payload (i + 1) of
        Inl e \<Rightarrow> Inl e
      | Inr s \<Rightarrow>
          (case py_int s 10 of
             Inl e \<Rightarrow> Inl e
           | Inr len \<Rightarrow>
               if len \<noteq> 2 then Inl ValueError
               else
                 (let start = i + 2;
                      end = i + 2 + nat len
                  in case ints16 (slice payload start end) of
                       Inl e \<Rightarrow> Inl e
                     | Inr [a, b] \<Rightarrow>
                         (let v = a * 256 + b;
                              v' = (if v \<ge> 32768 then v - 65536 else v)
                          in Inr (IntV v', end + 1))
                     | Inr _ \<Rightarrow> Inl ValueError)))"

text \<open>
  \<open>asic_eeg\<close>: the loop over \<open>range(0, 8)\<close>, then the routine. The declared length is
  parsed (as a decimal numeral) before it is overwritten by 24.
\<close>

fun asic_eeg_loop ::
  "nat list \<Rightarrow> string list \<Rightarrow> nat \<Rightarrow> nat \<Rightarrow> (string \<times> int) list \<Rightarrow> error + (string \<times> int) list" where
  "asic_eeg_loop [] payload start end result = Inr result"
| "asic_eeg_loop (count # counts) payload start end result =
     (case getitem waves count of
        Inl e \<Rightarrow> Inl e
      | Inr wave \<Rightarrow>
          (case ints16 (slice payload start end) of
             Inl e \<Rightarrow> Inl e
           | Inr numbers \<Rightarrow>
               (case big_endian numbers of
                  Inl e \<Rightarrow> Inl e
                | Inr v \<Rightarrow> asic_eeg_loop counts payload end (end + 3) (setitem result wave v))))"

definition asic_eeg :: "string list \<Rightarrow> nat \<Rightarrow> error + pyval \<times> nat" where
  "asic_eeg payload i =
     (let i1 = i + 1
      in case getitem payload i1 of
           Inl e \<Rightarrow> Inl e
         | Inr s \<Rightarrow>
             (case py_int s 10 of
                Inl e \<Rightarrow> Inl e
              | Inr declared \<Rightarrow>
                  (let len = 24;
                       i2 = i1 + 1
                   in case asic_eeg_loop [0..<8] payload i2 (i2 + 3) [] of
                        Inl e \<Rightarrow> Inl e
                      | Inr result \<Rightarrow> Inr (DictV result, i2 + len))))"

text \<open>The table \<open>self.codes\<close>: code, field name, routine.\<close>

datatype routine = ReadDefaultValue | RawWave | AsicEeg

definition codes :: "(int \<times> string \<times> routine) list" where
  "codes =
     [(2, ''poor_signal'', ReadDefaultValue),
      (4, ''attention'', ReadDefaultValue),
      (5, ''meditation'', ReadDefaultValue),
      (16, ''blink_strength'', ReadDefaultValue),
      (80, ''raw_wave'', RawWave),
      (83, ''asic_eeg'', AsicEeg)]"

fun call :: "routine \<Rightarrow> string list \<Rightarrow> nat \<Rightarrow> error + pyval \<times> nat" where
  "call ReadDefaultValue payload i = read_default_value payload i"
| "call RawWave payload i = raw_wave payload i"
| "call AsicEeg payload i = asic_eeg payload i"

text \<open>
  One round of the loop of \<open>get_payload_values\<close>: the tag is looked up by
  \<open>int(code)\<close>, the hex string read as a decimal numeral.
\<close>

definition decode_field :: "string list \<Rightarrow> nat \<Rightarrow> error + string \<times> pyval \<times> nat" where
  "decode_field payload i =
     (case getitem payload i of
        Inl e \<Rightarrow> Inl e
      | Inr code \<Rightarrow>
          (case py_int code 10 of
             Inl e \<Rightarrow> Inl e
           | Inr c \<Rightarrow>
               (case map_of codes c of
                  None \<Rightarrow> Inl KeyError
                | Some (func_name, func) \<Rightarrow>
                    (case call func payload i of
                       Inl e \<Rightarrow> Inl e
                     | Inr (v, i') \<Rightarrow> Inr (func_name, v, i')))))"

lemma read_default_value_next:
  "read_default_value payload i = Inr (v, j) \<Longrightarrow> j = i + 2"
  by (auto simp: read_default_value_def Let_def split: sum.splits)

lemma raw_wave_next: "raw_wave payload i = Inr (v, j) \<Longrightarrow> j = i + 5"
  by (auto simp: raw_wave_def Let_def split: sum.splits list.splits if_splits)

lemma asic_eeg_next: "asic_eeg payload i = Inr (v, j) \<Longrightarrow> j = i + 26"
  by (auto simp: asic_eeg_def Let_def split: sum.splits)

lemma call_advances: "call func payload i = Inr (v, j) \<Longrightarrow> i < j"
  by (cases func)
     (auto dest: read_default_value_next raw_wave_next asic_eeg_next)

lemma decode_field_advances: "decode_field payload i = Inr (name, v, j) \<Longrightarrow> i < j"
  by (auto simp: decode_field_def split: sum.splits option.splits dest: call_advances)

text \<open>
  \<open>get_payload_values\<close>: \<open>while i < length\<close>. Every routine that returns has moved
  the index forward, which is what the termination proof uses.
\<close>

function get_payload_loop ::
  "string list \<Rightarrow> int \<Rightarrow> nat \<Rightarrow> reading_set \<Rightarrow> error + reading_set" where
  "get_payload_loop payload len i result =
     (if int i < len then
        (case decode_field payload i of
           Inl e \<Rightarrow> Inl e
         | Inr (func_name, v, i') \<Rightarrow>
             get_payload_loop payload len i' (setitem result func_name v))
      else Inr result)"
  by pat_completeness auto
termination
  by (relation "measure (\<lambda>(payload, len, i, result). nat (len - int i))")
     (auto dest: decode_field_advances)

definition get_payload_values :: "string list \<Rightarrow> int \<Rightarrow> error + reading_set" where
  "get_payload_values payload len = get_payload_loop payload len 0 []"

text \<open>
  The same loop with a bound on the number of rounds: \<open>None\<close> when the bound is used
  up before the loop ends. It serves to state that the loop ends.
\<close>

fun get_payload_fuel ::
  "nat \<Rightarrow> string list \<Rightarrow> int \<Rightarrow> nat \<Rightarrow> reading_set \<Rightarrow> (error + reading_set) option" where
  "get_payload_fuel 0 payload len i result = None"
| "get_payload_fuel (Suc n) payload len i result =
     (if int i < len then
        (case decode_field payload i of
           Inl e \<Rightarrow> Some (Inl e)
         | Inr (func_name, v, i') \<Rightarrow>
             get_payload_fuel n payload len i' (setitem result func_name v))
      else Some (Inr result))"

section \<open>The stream of readings\<close>

text \<open>
  \<open>result.keys() == ['raw_wave']\<close>. Under Python 2 \<open>keys()\<close> is a list; under
  Python 3 it is a view object, and a view never compares equal to a list.
\<close>

definition keys_eq_list :: "adapter \<Rightarrow> reading_set \<Rightarrow> string list \<Rightarrow> bool" where
  "keys_eq_list self result ks = (if major self = 2 then keys result = ks else False)"

text \<open>
  \<open>values\<close> is a generator: \<open>values_next\<close> runs its loop up to the next \<open>yield\<close>,
  to an exception that leaves the generator, or to the end of the loop. Between two
  yields the generator keeps nothing but the adapter, so resuming it is calling
  \<open>values_next\<close> on the adapter as it is then. \<open>None\<close> is a call that never returns.
\<close>

datatype event = Yield reading_set | Raise error | StopIteration

partial_function (option) values_next :: "adapter \<Rightarrow> (event \<times> adapter) option" where
  "values_next self =
     (if is_open (sensor self) then
        (case wait_for_ready_state self of
           None \<Rightarrow> None
         | Some (Inl e, self1) \<Rightarrow> Some (Raise e, self1)
         | Some (Inr ready, self1) \<Rightarrow>
             (case read_int self1 1 of
                (Inl e, self2) \<Rightarrow> Some (Raise e, self2)
              | (Inr len, self2) \<Rightarrow>
                  if len > 169 then values_next self2
                  else
                    (case read_packet self2 len of
                       (Inl e, self3) \<Rightarrow>
                         if e = ChecksumFailed then values_next self3
                         else Some (Raise e, self3)
                     | (Inr payload, self3) \<Rightarrow>
                         (case get_payload_values payload len of
                            Inl e \<Rightarrow>
                              if e = ChecksumFailed then values_next self3
                              else Some (Raise e, self3)
                          | Inr result \<Rightarrow>
                              if skip_raw_wave self3 \<and> keys_eq_list self3 result [''raw_wave'']
                              then values_next self3
                              else Some (Yield result, self3)))))
      else Some (StopIteration, self))"

declare values_next.simps [code]

section \<open>Notions used to state the properties\<close>

text \<open>The adapter with the bytes still to come replaced; everything else is kept.\<close>

definition with_pending :: "adapter \<Rightarrow> byte list \<Rightarrow> adapter" where
  "with_pending self bs = self\<lparr>sensor := (sensor self)\<lparr>pending := bs\<rparr>\<rparr>"

text \<open>The adapter as the constructor leaves it when called with its default arguments.\<close>

definition opened :: "int \<Rightarrow> byte list \<Rightarrow> adapter" where
  "opened version incoming =
     \<lparr>sensor = Serial ''/dev/rfcomm0'' 57600 10 incoming, skip_raw_wave = True,
      major = version\<rparr>"

text \<open>
  The checksum as the specification words it: the sum of the payload bytes, its low
  eight bits, complemented within eight bits.
\<close>

definition packet_checksum :: "byte list \<Rightarrow> int" where
  "packet_checksum B = NOT (sum_list (map uint B) AND 255) AND 255"

text \<open>
  \<open>advanced s s'\<close>: \<open>s'\<close> is \<open>s\<close> after some of its pending bytes were consumed.
\<close>

definition advanced :: "adapter \<Rightarrow> adapter \<Rightarrow> bool" where
  "advanced s s' \<longleftrightarrow>
     (\<exists>pre. pending (sensor s) = pre @ pending (sensor s'))
     \<and> s' = with_pending s (pending (sensor s'))"

text \<open>
  \<open>validated_packet s result s'\<close>: starting at \<open>s\<close>, one round of the stream loop
  synchronises, reads a length of at most 169, reads that many payload bytes \<open>B\<close> and a
  checksum byte that is the checksum of \<open>B\<close>, decodes \<open>B\<close> to \<open>result\<close>, and leaves
  the adapter as \<open>s'\<close>. \<open>from_validated_packet\<close> allows bytes to be consumed before
  that round starts.
\<close>

definition validated_packet :: "adapter \<Rightarrow> reading_set \<Rightarrow> adapter \<Rightarrow> bool" where
  "validated_packet s result s' \<longleftrightarrow>
     (\<exists>ready s1 len s2 B c.
        wait_for_ready_state s = Some (Inr ready, s1)
        \<and> read_int s1 1 = (Inr len, s2) \<and> len \<le> 169
        \<and> pending (sensor s2) = B @ c # pending (sensor s')
        \<and> int (length B) = len \<and> uint c = packet_checksum B
        \<and> read_packet s2 len = (Inr (map hex_of_byte B), s')
        \<and> get_payload_values (map hex_of_byte B) len = Inr result)"

definition from_validated_packet :: "adapter \<Rightarrow> reading_set \<Rightarrow> adapter \<Rightarrow> bool" where
  "from_validated_packet s result s' \<longleftrightarrow>
     (\<exists>pre post. pending (sensor s) = pre @ post
        \<and> validated_packet (with_pending s post) result s')"

text \<open>
  The tag bytes the decoder recognises. The table \<open>codes\<close> is keyed by the decimal
  reading of the tag's two hex digits, so its key 16 stands for the byte 0x16, 80 for
  0x80 and 83 for 0x83. \<open>reads_as_decimal\<close>: both hex digits of the byte are decimal
  digits.
\<close>

definition scalar_tags :: "(byte \<times> string) list" where
  "scalar_tags = [(0x02, ''poor_signal''), (0x04, ''attention''),
                  (0x05, ''meditation''), (0x16, ''blink_strength'')]"

definition known_tags :: "byte list" where
  "known_tags = [0x02, 0x04, 0x05, 0x16, 0x80, 0x83]"

definition reads_as_decimal :: "byte \<Rightarrow> bool" where
  "reads_as_decimal t \<longleftrightarrow> unat t div 16 < 10 \<and> unat t mod 16 < 10"

section \<open>The hex codec and Python's int\<close>

lemma digit_val_hexdigit_upto:
  "list_all (\<lambda>n. digit_val (hexdigit n) = Some n) [0..<16]"
  by code_simp

lemma digit_val_hexdigit: "n < 16 \<Longrightarrow> digit_val (hexdigit n) = Some n"
  using digit_val_hexdigit_upto by (simp add: list_all_iff)

lemma unat_byte_less: "unat (b::byte) < 256"
proof -
  have "unat b < 2 ^ LENGTH(8)" by (rule unsigned_less)
  then show ?thesis by simp
qed


lemma digits_val_pair:
  "hi < 16 \<Longrightarrow> lo < 16 \<Longrightarrow>
   digits_val base [hexdigit hi, hexdigit lo] 0 =
     (if hi < base \<and> lo < base then Some (hi * base + lo) else None)"
  by (simp add: digit_val_hexdigit)


lemma byte_nibbles: "unat (b::byte) div 16 < 16" "unat b mod 16 < 16"
proof -
  have "unat b < 16 * 16" using unat_byte_less [of b] by simp
  then show "unat b div 16 < 16" by (simp only: less_mult_imp_div_less)
  show "unat b mod 16 < 16" by (rule mod_less_divisor) simp
qed

lemma hex_of_byte_digits:
  "digits_val base (hex_of_byte b) 0 =
     (if unat b div 16 < base \<and> unat b mod 16 < base
      then Some (unat b div 16 * base + unat b mod 16) else None)"
  unfolding hex_of_byte_def by (rule digits_val_pair [OF byte_nibbles])

lemma hex_of_byte_not_Nil: "hex_of_byte b \<noteq> []"
  by (simp add: hex_of_byte_def)


lemma py_int_hex_of_byte_16: "py_int (hex_of_byte b) 16 = Inr (uint b)"
proof -
  have "unat b div 16 * 16 + unat b mod 16 = unat b"
    by (rule div_mult_mod_eq)
  then have "digits_val 16 (hex_of_byte b) 0 = Some (unat b)"
    unfolding hex_of_byte_digits using byte_nibbles [of b] by (simp only: simp_thms if_True)
  then show ?thesis
    unfolding py_int_def by (simp only: hex_of_byte_not_Nil if_False option.case uint_nat)
qed

lemma py_int_hex_of_byte_10:
  "py_int (hex_of_byte b) 10 =
     (if unat b div 16 < 10 \<and> unat b mod 16 < 10
      then Inr (int (unat b div 16 * 10 + unat b mod 16)) else Inl ValueError)"
  unfolding py_int_def hex_of_byte_digits
  by (cases "unat b div 16 < 10 \<and> unat b mod 16 < 10";
      simp only: hex_of_byte_not_Nil if_False if_True option.case simp_thms)

lemma py_int_error: "py_int s base = Inl e \<Longrightarrow> e = ValueError"
  by (auto simp: py_int_def split: if_splits option.splits)

lemma dec2: "h * 10 + l = (2::nat) \<Longrightarrow> h = 0 \<and> l = 2"
  by arith

lemma py_int_10_two_unat: "py_int (hex_of_byte b) 10 = Inr 2 \<Longrightarrow> unat b = 2"
proof -
  assume "py_int (hex_of_byte b) 10 = Inr 2"
  then have "int (unat b div 16 * 10 + unat b mod 16) = int 2"
    unfolding py_int_hex_of_byte_10 by (simp only: sum.inject sum.distinct of_nat_numeral split: if_splits) 
  then have "unat b div 16 * 10 + unat b mod 16 = 2"
    by (simp only: of_nat_eq_iff)
  then have "unat b div 16 = 0 \<and> unat b mod 16 = 2" by (rule dec2)
  then have "unat b div 16 * 16 + unat b mod 16 = 2" by (simp only: mult_0 add_0)
  then show "unat b = 2" by (simp only: div_mult_mod_eq)
qed


lemma hex_of_byte_2: "hex_of_byte 2 = ''02''"
  by (simp add: hex_of_byte_def hexdigit_def)

lemma py_int_10_of_2: "py_int (hex_of_byte 2) 10 = Inr 2"
  unfolding hex_of_byte_2 by (simp add: py_int_def digit_val_def)

lemma py_int_10_eq_2: "py_int (hex_of_byte b) 10 = Inr 2 \<longleftrightarrow> b = 2"
proof
  assume "py_int (hex_of_byte b) 10 = Inr 2"
  then have "unat b = 2" by (rule py_int_10_two_unat)
  then have "unat b = unat (2::byte)" by simp
  then show "b = 2" by (simp only: word_unat_eq_iff)
next
  assume "b = 2"
  then show "py_int (hex_of_byte b) 10 = Inr 2"
    by (simp only: py_int_10_of_2)
qed

lemma slice_two:
  "i + 1 < length xs \<Longrightarrow> slice xs i (i + 2) = [xs ! i, xs ! (i + 1)]"
proof -
  assume a: "i + 1 < length xs"
  then have "drop i xs = xs ! i # xs ! (i + 1) # drop (i + 2) xs"
    by (simp add: Cons_nth_drop_Suc)
  then show ?thesis by (simp add: slice_def)
qed

section \<open>Reading from the port\<close>

lemma with_pending_simps [simp]:
  "with_pending (with_pending self xs) ys = with_pending self ys"
  "is_open (sensor (with_pending self xs)) = is_open (sensor self)"
  "pending (sensor (with_pending self xs)) = xs"
  "skip_raw_wave (with_pending self xs) = skip_raw_wave self"
  "major (with_pending self xs) = major self"
  "with_pending self (pending (sensor self)) = self"
  by (simp_all add: with_pending_def)

lemma encode_single [simp]: "encode self [b] = hex_of_byte b" "encode self [] = []"
  by (simp_all add: encode_def encode_v2_def encode_v3_def)

lemma read_str_byte:
  "is_open (sensor self) \<Longrightarrow>
   read_str (with_pending self (b # rest)) (Suc 0) = (Inr (hex_of_byte b), with_pending self rest)"
  by (simp add: read_str_def sensor_read_def with_pending_def encode_def encode_v2_def encode_v3_def)

lemma read_int_byte:
  "is_open (sensor self) \<Longrightarrow>
   read_int (with_pending self (b # rest)) (Suc 0) = (Inr (uint b), with_pending self rest)"
  by (simp add: read_int_def read_str_byte py_int_hex_of_byte_16)

lemma read_packet_loop_bytes:
  "is_open (sensor self) \<Longrightarrow>
   read_packet_loop (length B) (with_pending self (B @ rest)) result checksum =
     (Inr (result @ map hex_of_byte B, checksum + sum_list (map uint B)), with_pending self rest)"
proof (induction B arbitrary: result checksum)
  case Nil
  then show ?case by simp
next
  case (Cons b B)
  then show ?case
    by (simp add: read_str_byte py_int_hex_of_byte_16 add.assoc)
qed

lemma read_packet_bytes:
  "is_open (sensor self) \<Longrightarrow>
   read_packet (with_pending self (B @ c # rest)) (int (length B)) =
     (if uint c = packet_checksum B then Inr (map hex_of_byte B) else Inl ChecksumFailed,
      with_pending self rest)"
  by (simp add: read_packet_def read_packet_loop_bytes read_int_byte packet_checksum_def Let_def)


lemma uint_sum_list_byte:
  "uint (sum_list B) = sum_list (map uint B) mod 256" for B :: "byte list"
proof (induction B)
  case Nil
  show ?case by simp
next
  case (Cons b B)
  have "uint (b + sum_list B) = (uint b + uint (sum_list B)) mod 2 ^ LENGTH(8)"
    by (rule uint_word_ariths)
  also have "\<dots> = (uint b + sum_list (map uint B) mod 256) mod 256"
    by (simp only: Cons.IH) simp
  also have "\<dots> = (uint b + sum_list (map uint B)) mod 256"
    by (rule mod_add_right_eq)
  finally show ?case by simp
qed

lemma low_byte_complement:
  "NOT (s AND 255) AND 255 = 255 - s mod 256" for s :: int
proof -
  have m: "(255::int) = mask 8" by (simp add: mask_eq_exp_minus_1)
  have a: "s AND 255 = s mod 256"
    unfolding m by (simp add: take_bit_eq_mod flip: take_bit_eq_mask)
  have "NOT (s mod 256) AND 255 = (- (s mod 256) - 1) mod 256"
    unfolding m by (simp add: not_int_def take_bit_eq_mod flip: take_bit_eq_mask)
  also have "\<dots> = 255 - s mod 256"
  proof (rule int_mod_pos_eq [where q = "- 1"])
    show "- (s mod 256) - 1 = 256 * - 1 + (255 - s mod 256)" by simp
    show "0 \<le> 255 - s mod 256"
      using pos_mod_bound [of 256 s] by linarith
    show "255 - s mod 256 < 256"
      using pos_mod_sign [of 256 s] by linarith
  qed
  finally show ?thesis by (simp only: a)
qed

lemma packet_checksum_word: "packet_checksum B = 255 - uint (sum_list B)"
  by (simp only: packet_checksum_def low_byte_complement uint_sum_list_byte)

lemma sum_list_update_byte:
  "j < length B \<Longrightarrow> sum_list (B[j := y]) = sum_list B - B ! j + y" for B :: "byte list"
  by (induction B arbitrary: j) (auto simp: nth_Cons split: nat.splits)

lemma flip_bit_changes_byte: "k < 8 \<Longrightarrow> flip_bit k b \<noteq> b" for b :: byte
proof
  assume k: "k < 8" and eq: "flip_bit k b = b"
  have "bit (flip_bit k b) k \<longleftrightarrow> \<not> bit b k"
    using k by (simp add: bit_flip_bit_iff)
  with eq show False by simp
qed

lemma packet_checksum_flip:
  "j < length B \<Longrightarrow> k < 8 \<Longrightarrow>
   packet_checksum (B[j := flip_bit k (B ! j)]) \<noteq> packet_checksum B"
proof
  assume j: "j < length B" and k: "k < 8"
    and eq: "packet_checksum (B[j := flip_bit k (B ! j)]) = packet_checksum B"
  then have "uint (sum_list (B[j := flip_bit k (B ! j)])) = uint (sum_list B)"
    by (simp only: packet_checksum_word)
  then have "sum_list (B[j := flip_bit k (B ! j)]) = sum_list B"
    by (simp only: word_uint_eq_iff)
  then have "sum_list B - B ! j + flip_bit k (B ! j) = sum_list B"
    using j by (simp only: sum_list_update_byte)
  then have "flip_bit k (B ! j) = B ! j" by simp
  with k show False by (simp only: flip_bit_changes_byte)
qed

lemma hex_of_byte_AA: "hex_of_byte 0xAA = ''aa''"
  by (simp add: hex_of_byte_def hexdigit_def)

lemma hex_of_byte_inject: "hex_of_byte a = hex_of_byte b \<longleftrightarrow> a = b"
proof
  assume "hex_of_byte a = hex_of_byte b"
  then have "py_int (hex_of_byte a) 16 = py_int (hex_of_byte b) 16" by simp
  then have "uint a = uint b" by (simp only: py_int_hex_of_byte_16 sum.inject)
  then show "a = b" by (simp only: word_uint_eq_iff)
qed simp

lemma wait_for_ready_state_sync:
  "is_open (sensor self) \<Longrightarrow>
   wait_for_ready_state (with_pending self (0xAA # 0xAA # rest)) =
     Some (Inr True, with_pending self rest)"
  by (subst wait_for_ready_state.simps) (simp add: read_str_byte hex_of_byte_AA)

lemma wait_for_ready_state_miss:
  "is_open (sensor self) \<Longrightarrow> a \<noteq> 0xAA \<or> b \<noteq> 0xAA \<Longrightarrow>
   wait_for_ready_state (with_pending self (a # b # c # rest)) =
     wait_for_ready_state (with_pending self rest)"
  by (subst wait_for_ready_state.simps)
     (auto simp add: read_str_byte hex_of_byte_inject simp flip: hex_of_byte_AA)

lemma advanced_refl: "advanced s s"
  by (simp add: advanced_def)

lemma advanced_trans: "advanced s s1 \<Longrightarrow> advanced s1 s2 \<Longrightarrow> advanced s s2"
  unfolding advanced_def
  by (metis append.assoc with_pending_simps(1))

lemma advanced_with_pending: "advanced s s' \<Longrightarrow> with_pending s' xs = with_pending s xs"
  unfolding advanced_def by (metis with_pending_simps(1))

lemma read_str_advanced: "read_str s n = (r, s') \<Longrightarrow> advanced s s'"
  by (auto simp: read_str_def sensor_read_def advanced_def with_pending_def
           split: if_splits intro: exI [of _ "take n (pending (sensor s))"])

lemma read_str_error: "read_str s n = (Inl e, s') \<Longrightarrow> e = SerialException"
  by (auto simp: read_str_def sensor_read_def split: if_splits)

lemma read_int_advanced: "read_int s n = (r, s') \<Longrightarrow> advanced s s'"
  by (auto simp: read_int_def split: prod.splits sum.splits dest: read_str_advanced)

lemma read_int_error: "read_int s n = (Inl e, s') \<Longrightarrow> e \<noteq> ChecksumFailed"
  by (auto simp: read_int_def split: prod.splits sum.splits dest: read_str_error py_int_error)


lemma read_str_byte_inv:
  assumes "read_str s (Suc 0) = (Inr v, s')" and "py_int v 16 = Inr k"
  shows "\<exists>b. pending (sensor s) = b # pending (sensor s')
           \<and> s' = with_pending s (pending (sensor s')) \<and> v = hex_of_byte b \<and> k = uint b"
proof (cases "pending (sensor s)")
  case Nil
  with assms(1) have "v = []"
    by (auto simp: read_str_def sensor_read_def split: if_splits)
  with assms(2) show ?thesis by (simp add: py_int_def)
next
  case (Cons b rest)
  with assms(1) have "v = hex_of_byte b" "pending (sensor s') = rest"
    "s' = with_pending s rest"
    by (auto simp: read_str_def sensor_read_def with_pending_def split: if_splits)
  with assms(2) Cons show ?thesis
    by (simp add: py_int_hex_of_byte_16)
qed

lemma read_packet_loop_inv:
  "read_packet_loop n s result cs = (Inr (res', cs'), s') \<Longrightarrow>
   \<exists>B. length B = n \<and> pending (sensor s) = B @ pending (sensor s')
       \<and> s' = with_pending s (pending (sensor s'))
       \<and> res' = result @ map hex_of_byte B \<and> cs' = cs + sum_list (map uint B)"
proof (induction n arbitrary: s result cs)
  case 0
  then show ?case by simp
next
  case (Suc n)
  from Suc.prems obtain v s1 k where
    r: "read_str s (Suc 0) = (Inr v, s1)" and p: "py_int v 16 = Inr k"
    and l: "read_packet_loop n s1 (result @ [v]) (cs + k) = (Inr (res', cs'), s')"
    by (auto split: prod.splits sum.splits)
  from read_str_byte_inv [OF r p] obtain b where
    b: "pending (sensor s) = b # pending (sensor s1)"
      "s1 = with_pending s (pending (sensor s1))" "v = hex_of_byte b" "k = uint b"
    by blast
  from Suc.IH [OF l] obtain B where
    B: "length B = n" "pending (sensor s1) = B @ pending (sensor s')"
      "s' = with_pending s1 (pending (sensor s'))"
      "res' = (result @ [v]) @ map hex_of_byte B" "cs' = cs + k + sum_list (map uint B)"
    by blast
  have "s' = with_pending s (pending (sensor s'))"
    using b(2) B(3) by (metis with_pending_simps(1))
  then show ?case
    using b B by (intro exI [of _ "b # B"]) simp
qed

lemma read_packet_inv:
  assumes "read_packet s len = (Inr payload, s')"
  shows "\<exists>B c. pending (sensor s) = B @ c # pending (sensor s')
           \<and> s' = with_pending s (pending (sensor s'))
           \<and> length B = nat len \<and> uint c = packet_checksum B
           \<and> payload = map hex_of_byte B"
proof -
  from assms obtain cs s1 expected where
    l: "read_packet_loop (nat len) s [] 0 = (Inr (payload, cs), s1)"
    and e: "read_int s1 (Suc 0) = (Inr expected, s')"
    and c: "NOT (cs AND 255) AND 255 = expected"
    by (auto simp: read_packet_def Let_def split: prod.splits sum.splits if_splits)
  from read_packet_loop_inv [OF l] obtain B where
    B: "length B = nat len" "pending (sensor s) = B @ pending (sensor s1)"
      "s1 = with_pending s (pending (sensor s1))"
      "payload = map hex_of_byte B" "cs = sum_list (map uint B)"
    by auto
  from e obtain v where r: "read_str s1 (Suc 0) = (Inr v, s')" and p: "py_int v 16 = Inr expected"
    by (auto simp: read_int_def split: prod.splits sum.splits)
  from read_str_byte_inv [OF r p] obtain c where
    cc: "pending (sensor s1) = c # pending (sensor s')"
      "s' = with_pending s1 (pending (sensor s'))" "expected = uint c"
    by blast
  have "s' = with_pending s (pending (sensor s'))"
    using B(3) cc(2) by (metis with_pending_simps(1))
  then show ?thesis
    using B cc c by (intro exI [of _ B] exI [of _ c]) (simp add: packet_checksum_def)
qed

lemma read_packet_loop_advanced:
  "read_packet_loop n s result cs = (r, s') \<Longrightarrow> advanced s s'"
proof (induction n arbitrary: s result cs)
  case 0
  then show ?case by (simp add: advanced_refl)
next
  case (Suc n)
  then show ?case
    by (auto split: prod.splits sum.splits
             dest: read_str_advanced intro: advanced_trans)
qed

lemma read_packet_advanced: "read_packet s len = (r, s') \<Longrightarrow> advanced s s'"
  by (auto simp: read_packet_def Let_def split: prod.splits sum.splits if_splits
           dest!: read_packet_loop_advanced read_int_advanced intro: advanced_trans)

lemma advanced_trans3:
  "advanced s s1 \<Longrightarrow> advanced s1 s2 \<Longrightarrow> advanced s2 s3 \<Longrightarrow> advanced s s3"
  by (blast intro: advanced_trans)

lemma wait_advanced_aux:
  "wait_for_ready_state s = Some y \<Longrightarrow> advanced s (snd y)"
  apply (erule wait_for_ready_state.raw_induct [rotated, where P = "\<lambda>s y. advanced s (snd y)"])
  apply (auto split: if_splits prod.splits sum.splits simp: advanced_refl
              dest!: read_str_advanced)
        apply (blast intro: advanced_trans advanced_trans3)+
  done

lemma wait_for_ready_state_advanced:
  "wait_for_ready_state s = Some (r, s') \<Longrightarrow> advanced s s'"
  by (drule wait_advanced_aux) simp

lemma wait_error_aux:
  "wait_for_ready_state s = Some y \<Longrightarrow> (\<forall>e. fst y = Inl e \<longrightarrow> e = SerialException)"
  apply (erule wait_for_ready_state.raw_induct
    [rotated, where P = "\<lambda>s y. \<forall>e. fst y = Inl e \<longrightarrow> e = SerialException"])
  apply (auto split: if_splits prod.splits sum.splits dest: read_str_error)
  done

lemma wait_for_ready_state_error:
  "wait_for_ready_state s = Some (Inl e, s') \<Longrightarrow> e = SerialException"
  by (drule wait_error_aux) simp

lemma validated_packet_here:
  assumes "wait_for_ready_state s = Some (Inr ready, s1)"
    and "read_int s1 (Suc 0) = (Inr len, s2)" and "\<not> 169 < len"
    and "read_packet s2 len = (Inr payload, s3)"
    and "get_payload_values payload len = Inr result"
  shows "from_validated_packet s result s3"
proof -
  from read_packet_inv [OF assms(4)] obtain B c where
    B: "pending (sensor s2) = B @ c # pending (sensor s3)" "length B = nat len"
      "uint c = packet_checksum B" "payload = map hex_of_byte B"
    by blast
  have "0 \<le> len"
    using assms(2) by (auto simp: read_int_def py_int_def split: prod.splits sum.splits if_splits option.splits)
  with B(2) have "int (length B) = len" by simp
  with assms B have "validated_packet s result s3"
    unfolding validated_packet_def by auto
  then have "validated_packet (with_pending s (pending (sensor s))) result s3" by simp
  then show ?thesis
    unfolding from_validated_packet_def by (intro exI [of _ "[]"] exI [of _ "pending (sensor s)"]) simp
qed

lemma from_validated_packet_carry:
  assumes "advanced s t" and "from_validated_packet t result s'"
  shows "from_validated_packet s result s'"
proof -
  from assms(2) obtain pre post where
    p: "pending (sensor t) = pre @ post" "validated_packet (with_pending t post) result s'"
    unfolding from_validated_packet_def by blast
  from assms(1) obtain pre0 where q: "pending (sensor s) = pre0 @ pending (sensor t)"
    unfolding advanced_def by blast
  have "with_pending t post = with_pending s post"
    using assms(1) by (rule advanced_with_pending)
  with p q show ?thesis
    unfolding from_validated_packet_def
    by (intro exI [of _ "pre0 @ pre"] exI [of _ post]) simp
qed

lemma values_next_yield_aux:
  "values_next s = Some y \<Longrightarrow>
   (\<forall>result s'. y = (Yield result, s') \<longrightarrow> from_validated_packet s result s')"
  apply (erule values_next.raw_induct
    [rotated, where P = "\<lambda>s y. \<forall>result s'. y = (Yield result, s') \<longrightarrow> from_validated_packet s result s'"])
  apply (auto split: if_splits prod.splits sum.splits option.splits)
       apply (blast intro: validated_packet_here from_validated_packet_carry advanced_trans
                wait_for_ready_state_advanced read_int_advanced read_packet_advanced)+
  done

lemma ints16_error: "ints16 ks = Inl e \<Longrightarrow> e = ValueError"
  by (induction ks arbitrary: e) (auto split: sum.splits dest: py_int_error)

lemma big_endian_error: "big_endian ns = Inl e \<Longrightarrow> e = IndexError"
  by (auto simp: big_endian_def getitem_def split: if_splits)

lemma asic_eeg_loop_error:
  "asic_eeg_loop counts payload start end result = Inl e \<Longrightarrow> e \<noteq> ChecksumFailed"
  by (induction counts arbitrary: start "end" result)
     (auto simp: getitem_def split: sum.splits if_splits dest: ints16_error big_endian_error)

lemma call_error: "call func payload i = Inl e \<Longrightarrow> e \<noteq> ChecksumFailed"
  by (cases func)
     (auto simp: read_default_value_def raw_wave_def asic_eeg_def getitem_def Let_def
           split: sum.splits if_splits list.splits
           dest: py_int_error ints16_error asic_eeg_loop_error)

lemma decode_field_error: "decode_field payload i = Inl e \<Longrightarrow> e \<noteq> ChecksumFailed"
  by (auto simp: decode_field_def getitem_def
           split: sum.splits option.splits if_splits dest: py_int_error call_error)

lemma get_payload_loop_error_aux:
  "get_payload_loop payload len i result = Inl e \<Longrightarrow> e \<noteq> ChecksumFailed"
proof (induction payload len i result rule: get_payload_loop.induct)
  case (1 payload len i result)
  show ?case
  proof (cases "int i < len")
    case False
    with "1.prems" show ?thesis by simp
  next
    case True
    show ?thesis
    proof (cases "decode_field payload i")
      case (Inl e')
      then have "e' \<noteq> ChecksumFailed" by (rule decode_field_error)
      with Inl True "1.prems" show ?thesis by simp
    next
      case (Inr r)
      obtain name v j where r: "r = (name, v, j)" by (cases r)
      from "1.IH" [OF True Inr r [THEN sym] refl] "1.prems" True Inr r
      show ?thesis by simp
    qed
  qed
qed


lemma get_payload_values_error:
  "get_payload_values payload len = Inl e \<Longrightarrow> e \<noteq> ChecksumFailed"
  unfolding get_payload_values_def by (rule get_payload_loop_error_aux)

lemma values_next_raise_aux:
  "values_next s = Some y \<Longrightarrow> (\<forall>s'. y \<noteq> (Raise ChecksumFailed, s'))"
  apply (erule values_next.raw_induct
    [rotated, where P = "\<lambda>s y. \<forall>s'. y \<noteq> (Raise ChecksumFailed, s')"])
  apply (auto split: if_splits prod.splits sum.splits option.splits
              dest: wait_for_ready_state_error read_int_error)
  done

lemma values_next_oversize:
  assumes "is_open (sensor self)" and "169 < uint L"
  shows "values_next (with_pending self (0xAA # 0xAA # L # rest))
           = values_next (with_pending self rest)"
  using assms
  by (subst values_next.simps)
     (simp add: wait_for_ready_state_sync read_int_byte)

lemma values_next_packet:
  assumes "is_open (sensor self)" and "int (length B) = uint L" and "uint L \<le> 169"
  shows "values_next (with_pending self (0xAA # 0xAA # L # B @ c # rest)) =
     (if uint c \<noteq> packet_checksum B then values_next (with_pending self rest)
      else case get_payload_values (map hex_of_byte B) (uint L) of
             Inl e \<Rightarrow> Some (Raise e, with_pending self rest)
           | Inr result \<Rightarrow>
               if skip_raw_wave self \<and> keys_eq_list self result [''raw_wave'']
               then values_next (with_pending self rest)
               else Some (Yield result, with_pending self rest))"
proof -
  have rp: "read_packet (with_pending self (B @ c # rest)) (uint L) =
     (if uint c = packet_checksum B then Inr (map hex_of_byte B) else Inl ChecksumFailed,
      with_pending self rest)"
    using read_packet_bytes [OF assms(1), of B c rest] assms(2) by simp
  have k: "keys_eq_list (with_pending self rest) = keys_eq_list self"
    by (simp add: keys_eq_list_def fun_eq_iff)
  show ?thesis
    using assms
    by (subst values_next.simps)
       (auto simp add: wait_for_ready_state_sync read_int_byte rp k
             split: sum.splits dest: get_payload_values_error)
qed

lemma dec_digits:
  "h * 10 + l = a * 10 + b \<Longrightarrow> l < 10 \<Longrightarrow> b < 10 \<Longrightarrow> h = a \<and> l = (b::nat)"
proof -
  assume e: "h * 10 + l = a * 10 + b" and l: "l < 10" and b: "b < 10"
  have "(h * 10 + l) div 10 = h" "(a * 10 + b) div 10 = a" using l b by simp_all
  with e have "h = a" by simp
  with e show ?thesis by simp
qed

lemma py_int_10_unat:
  assumes "py_int (hex_of_byte t) 10 = Inr (int (a * 10 + b))" and "b < 10"
  shows "unat t = a * 16 + b"
proof -
  from assms(1) have "int (unat t div 16 * 10 + unat t mod 16) = int (a * 10 + b)"
    and l: "unat t mod 16 < 10"
    unfolding py_int_hex_of_byte_10 by (simp_all only: sum.inject sum.distinct split: if_splits)
  then have "unat t div 16 * 10 + unat t mod 16 = a * 10 + b"
    by (simp only: of_nat_eq_iff)
  then have "unat t div 16 = a \<and> unat t mod 16 = b" using l assms(2) by (rule dec_digits)
  then have "unat t div 16 * 16 + unat t mod 16 = a * 16 + b" by (simp only:)
  then show ?thesis by (simp only: div_mult_mod_eq)
qed

lemma tag_of_code:
  assumes "py_int (hex_of_byte t) 10 = Inr d" and "d = int (a * 10 + b)" and "b < 10"
    and "unat (w::byte) = a * 16 + b"
  shows "t = w"
proof -
  have "py_int (hex_of_byte t) 10 = Inr (int (a * 10 + b))"
    using assms(1,2) by (simp only:)
  then have "unat t = a * 16 + b" using assms(3) by (rule py_int_10_unat)
  then have "unat t = unat w" by (simp only: assms(4))
  then show ?thesis by (simp only: word_unat_eq_iff)
qed

lemma codes_dom:
  "map_of codes d \<noteq> None \<Longrightarrow> d = 2 \<or> d = 4 \<or> d = 5 \<or> d = 16 \<or> d = 80 \<or> d = 83"
  unfolding map_of_eq_None_iff by (simp add: codes_def)

lemma py_int_10_known:
  assumes "py_int (hex_of_byte t) 10 = Inr d" and "map_of codes d \<noteq> None"
  shows "t \<in> set known_tags"
proof -
  note tag = tag_of_code [OF assms(1)]
  have "d = 2 \<Longrightarrow> t = 0x02" by (rule tag [of 0 2]) simp_all
  moreover have "d = 4 \<Longrightarrow> t = 0x04" by (rule tag [of 0 4]) simp_all
  moreover have "d = 5 \<Longrightarrow> t = 0x05" by (rule tag [of 0 5]) simp_all
  moreover have "d = 16 \<Longrightarrow> t = 0x16" by (rule tag [of 1 6]) simp_all
  moreover have "d = 80 \<Longrightarrow> t = 0x80" by (rule tag [of 8 0]) simp_all
  moreover have "d = 83 \<Longrightarrow> t = 0x83" by (rule tag [of 8 3]) simp_all
  ultimately have "t = 0x02 \<or> t = 0x04 \<or> t = 0x05 \<or> t = 0x16 \<or> t = 0x80 \<or> t = 0x83"
    using codes_dom [OF assms(2)] by blast
  then show ?thesis unfolding known_tags_def by auto
qed

lemma py_int_10_cases:
  "py_int (hex_of_byte t) 10 = Inl ValueError \<and> \<not> reads_as_decimal t
   \<or> (\<exists>d. py_int (hex_of_byte t) 10 = Inr d) \<and> reads_as_decimal t"
  unfolding py_int_hex_of_byte_10 reads_as_decimal_def
  by (cases "unat t div 16 < 10 \<and> unat t mod 16 < 10";
      simp only: if_True if_False simp_thms; blast)

lemma py_int_10_unknown:
  assumes "t \<notin> set known_tags"
  shows "(case py_int (hex_of_byte t) 10 of Inl e \<Rightarrow> Inl e
          | Inr d \<Rightarrow> (case map_of codes d of None \<Rightarrow> Inl KeyError | Some p \<Rightarrow> Inr p))
         = Inl (if reads_as_decimal t then KeyError else ValueError)"
proof (cases "py_int (hex_of_byte t) 10")
  case (Inl e)
  then show ?thesis
    using py_int_10_cases [of t] by auto
next
  case (Inr d)
  then have "map_of codes d = None" using py_int_10_known [OF Inr] assms by blast
  moreover have "reads_as_decimal t"
    using py_int_10_cases [of t] Inr by auto
  ultimately show ?thesis using Inr by simp
qed


lemma scalar_tag_hex:
  "hex_of_byte 0x02 = ''02''" "hex_of_byte 0x04 = ''04''"
  "hex_of_byte 0x05 = ''05''" "hex_of_byte 0x16 = ''16''"
  by (simp_all add: hex_of_byte_def hexdigit_def)

lemma scalar_tag_dec:
  "py_int ''02'' 10 = Inr 2" "py_int ''04'' 10 = Inr 4"
  "py_int ''05'' 10 = Inr 5" "py_int ''16'' 10 = Inr 16"
  by (simp_all add: py_int_def digit_val_def)

lemma scalar_tag_code:
  "(t, name) \<in> set scalar_tags \<Longrightarrow>
   (case py_int (hex_of_byte t) 10 of Inl e \<Rightarrow> None | Inr d \<Rightarrow> map_of codes d)
     = Some (name, ReadDefaultValue)"
  by (auto simp: scalar_tags_def scalar_tag_hex scalar_tag_dec codes_def)

lemma decode_field_scalar:
  assumes "(t, name) \<in> set scalar_tags" and "i + 1 < length payload"
    and "payload ! i = hex_of_byte t" and "payload ! (i + 1) = hex_of_byte v"
  shows "decode_field payload i = Inr (name, IntV (uint v), i + 2)"
proof -
  from scalar_tag_code [OF assms(1)] obtain d where
    d: "py_int (hex_of_byte t) 10 = Inr d" "map_of codes d = Some (name, ReadDefaultValue)"
    by (auto split: sum.splits)
  have "read_default_value payload i = Inr (IntV (uint v), i + 2)"
    using assms(2,4) by (simp add: read_default_value_def getitem_def py_int_hex_of_byte_16)
  then show ?thesis
    using assms(2,3) d by (simp add: decode_field_def getitem_def)
qed

lemma decode_field_unknown:
  assumes "t \<notin> set known_tags" and "i < length payload" and "payload ! i = hex_of_byte t"
  shows "decode_field payload i = Inl (if reads_as_decimal t then KeyError else ValueError)"
proof -
  have "decode_field payload i =
     (case (case py_int (hex_of_byte t) 10 of Inl e \<Rightarrow> Inl e
          | Inr d \<Rightarrow> (case map_of codes d of None \<Rightarrow> Inl KeyError | Some p \<Rightarrow> Inr p)) of
        Inl e \<Rightarrow> Inl e
      | Inr (func_name, func) \<Rightarrow>
          (case call func payload i of Inl e \<Rightarrow> Inl e
           | Inr (v, i') \<Rightarrow> Inr (func_name, v, i')))"
    using assms(2,3)
    by (simp add: decode_field_def getitem_def split: sum.splits option.splits)
  then show ?thesis
    by (simp only: py_int_10_unknown [OF assms(1)] sum.case)
qed

lemma opened_with_pending: "with_pending (opened v xs) ys = opened v ys"
  by (simp add: with_pending_def opened_def Serial_def)

lemma opened_is_open: "is_open (sensor (opened v xs))"
  by (simp add: opened_def Serial_def)

section \<open>Synchronisation\<close>

text \<open>
  Claim C1 says that after any prefix free of the sync pair, followed by AA AA,
  \<open>_wait_for_ready_state\<close> returns right after the second AA. The loop reads two
  bytes, and on a mismatch a third one that the next round overwrites, so it looks at
  the stream in strides of three. On the stream 00 AA AA AA AA 07 (prefix 00, then the
  sync pair) it returns after the fifth byte, with only 07 left, and not after the third.
\<close>

theorem wait_for_ready_state_overshoots:
  "wait_for_ready_state (opened 3 [0x00, 0xAA, 0xAA, 0xAA, 0xAA, 0x07])
     = Some (Inr True, opened 3 [0x07])
   \<and> wait_for_ready_state (opened 3 [0x00, 0xAA, 0xAA, 0xAA, 0xAA, 0x07])
     \<noteq> Some (Inr True, opened 3 [0xAA, 0xAA, 0x07])"
proof -
  have o: "is_open (sensor (opened 3 []))" by (rule opened_is_open)
  have "wait_for_ready_state (with_pending (opened 3 []) [0x00, 0xAA, 0xAA, 0xAA, 0xAA, 0x07])
     = Some (Inr True, with_pending (opened 3 []) [0x07])"
    using o by (simp add: wait_for_ready_state_miss wait_for_ready_state_sync)
  then have e: "wait_for_ready_state (opened 3 [0x00, 0xAA, 0xAA, 0xAA, 0xAA, 0x07])
     = Some (Inr True, opened 3 [0x07])"
    by (simp only: opened_with_pending)
  have "opened 3 [0x07] \<noteq> opened 3 [0xAA, 0xAA, 0x07]"
    by (simp add: opened_def Serial_def)
  with e show ?thesis by simp
qed

section \<open>The checksum\<close>

text \<open>
  Claim C2. On an open port that delivers the payload bytes \<open>B\<close> and then the byte
  \<open>c\<close>, \<open>_read_packet\<close> with the length of \<open>B\<close> returns the payload (as hex
  strings) exactly when \<open>c\<close> is \<open>(~(sum(B) & 0xFF)) & 0xFF\<close> and raises ChecksumFailed
  otherwise, having consumed these bytes and no more. So when \<open>c\<close> is the right checksum
  of \<open>B\<close>, flipping bit \<open>k\<close> of byte \<open>j\<close> of \<open>B\<close> and keeping \<open>c\<close> gives
  ChecksumFailed.
\<close>

theorem read_packet_checksum:
  "is_open (sensor self) \<Longrightarrow>
   read_packet (with_pending self (B @ c # rest)) (int (length B)) =
     (if uint c = packet_checksum B then Inr (map hex_of_byte B) else Inl ChecksumFailed,
      with_pending self rest)
   \<and> (j < length B \<and> k < 8 \<and> uint c = packet_checksum B \<longrightarrow>
        read_packet (with_pending self (B[j := flip_bit k (B ! j)] @ c # rest)) (int (length B))
          = (Inl ChecksumFailed, with_pending self rest))"
proof (intro conjI impI)
  assume "is_open (sensor self)"
  then show "read_packet (with_pending self (B @ c # rest)) (int (length B)) =
           (if uint c = packet_checksum B then Inr (map hex_of_byte B) else Inl ChecksumFailed,
            with_pending self rest)"
    by (rule read_packet_bytes)
next
  assume op: "is_open (sensor self)"
    and a: "j < length B \<and> k < 8 \<and> uint c = packet_checksum B"
  let ?B = "B[j := flip_bit k (B ! j)]"
  have "uint c \<noteq> packet_checksum ?B"
    using packet_checksum_flip [of j B k] a by simp
  moreover have "read_packet (with_pending self (?B @ c # rest)) (int (length ?B)) =
           (if uint c = packet_checksum ?B then Inr (map hex_of_byte ?B) else Inl ChecksumFailed,
            with_pending self rest)"
    using op by (rule read_packet_bytes)
  ultimately show "read_packet (with_pending self (?B @ c # rest)) (int (length B))
           = (Inl ChecksumFailed, with_pending self rest)"
    by simp
qed

text \<open>
  The theorem on the packet body 02 64 with its checksum 99, and on the same bytes with
  the lowest bit of the second byte flipped.
\<close>

theorem read_packet_checksum_witness:
  "read_packet (opened 3 [0x02, 0x64, 0x99, 0xAA]) 2 = (Inr [''02'', ''64''], opened 3 [0xAA])
   \<and> read_packet (opened 3 [0x02, 0x65, 0x99, 0xAA]) 2 = (Inl ChecksumFailed, opened 3 [0xAA])"
proof -
  have o: "is_open (sensor (opened 3 []))" by (rule opened_is_open)
  have cs: "uint (0x99 :: byte) = packet_checksum [0x02, 0x64]"
    by (simp add: packet_checksum_word)
  have fl: "[0x02, 0x64 :: byte][1 := flip_bit 0 ([0x02, 0x64] ! 1)] = [0x02, 0x65]"
    by (simp add: flip_bit_eq_xor)
  show ?thesis
    using read_packet_checksum [OF o, of "[0x02, 0x64]" "0x99" "[0xAA]" 1 0] cs
    by (simp add: opened_with_pending fl hex_of_byte_def hexdigit_def)
qed

section \<open>What the stream yields\<close>

text \<open>
  Claim C3. Whatever \<open>values\<close> yields comes from a round of its loop that read a
  declared length of at most 169 and a payload whose checksum byte matched; the
  exception ChecksumFailed never leaves the generator. After the sync bytes, a length
  byte above 169 makes the loop start again at the byte after the length byte, with no
  payload byte read; a packet of at most 169 bytes whose checksum byte is wrong is
  consumed, and the loop starts again after it.
\<close>

theorem values_only_validated_packets:
  "(values_next s = Some (Yield result, s') \<longrightarrow> from_validated_packet s result s')
   \<and> values_next s \<noteq> Some (Raise ChecksumFailed, s')
   \<and> (is_open (sensor self) \<and> 169 < uint L \<longrightarrow>
        values_next (with_pending self (0xAA # 0xAA # L # rest))
          = values_next (with_pending self rest))
   \<and> (is_open (sensor self) \<and> int (length B) = uint L' \<and> uint L' \<le> 169
        \<and> uint c \<noteq> packet_checksum B \<longrightarrow>
        values_next (with_pending self (0xAA # 0xAA # L' # B @ c # rest'))
          = values_next (with_pending self rest'))"
proof (intro conjI impI)
  assume "values_next s = Some (Yield result, s')"
  then show "from_validated_packet s result s'"
    by (blast dest: values_next_yield_aux)
next
  show "values_next s \<noteq> Some (Raise ChecksumFailed, s')"
    by (blast dest: values_next_raise_aux)
next
  assume "is_open (sensor self) \<and> 169 < uint L"
  then show "values_next (with_pending self (0xAA # 0xAA # L # rest))
          = values_next (with_pending self rest)"
    by (simp add: values_next_oversize)
next
  assume "is_open (sensor self) \<and> int (length B) = uint L' \<and> uint L' \<le> 169
        \<and> uint c \<noteq> packet_checksum B"
  then show "values_next (with_pending self (0xAA # 0xAA # L' # B @ c # rest'))
          = values_next (with_pending self rest')"
    by (simp add: values_next_packet)
qed

text \<open>
  The theorem on a stream with an oversized length (C8, that is 200), a packet with a
  wrong checksum, and the packet 02 64 with its checksum 99.
\<close>

theorem values_only_validated_packets_witness:
  "from_validated_packet
     (opened 3 [0xAA, 0xAA, 0xC8, 0xAA, 0xAA, 0x02, 0x02, 0x64, 0x98,
                0xAA, 0xAA, 0x02, 0x02, 0x64, 0x99, 0x09])
     [(''poor_signal'', IntV 100)] (opened 3 [0x09])
   \<and> values_next (opened 3 [0xAA, 0xAA, 0xC8, 0x01, 0x02])
       = values_next (opened 3 [0x01, 0x02])
   \<and> values_next (opened 3 [0xAA, 0xAA, 0x02, 0x02, 0x64, 0x98, 0x01, 0x02])
       = values_next (opened 3 [0x01, 0x02])"
proof -
  have ev: "values_next (opened 3 [0xAA, 0xAA, 0xC8, 0xAA, 0xAA, 0x02, 0x02, 0x64, 0x98,
                     0xAA, 0xAA, 0x02, 0x02, 0x64, 0x99, 0x09])
          = Some (Yield [(''poor_signal'', IntV 100)], opened 3 [0x09])"
    by code_simp
  have o: "is_open (sensor (opened 3 []))" by (rule opened_is_open)
  have big: "169 < uint (0xC8 :: byte)" by simp
  have bad: "uint (0x98 :: byte) \<noteq> packet_checksum [0x02, 0x64]"
    by (simp add: packet_checksum_word)
  have len: "int (length [0x02, 0x64 :: byte]) = uint (0x02 :: byte)" "uint (0x02 :: byte) \<le> 169"
    by simp_all
  show ?thesis
    using values_only_validated_packets
      [of "opened 3 [0xAA, 0xAA, 0xC8, 0xAA, 0xAA, 0x02, 0x02, 0x64, 0x98,
                     0xAA, 0xAA, 0x02, 0x02, 0x64, 0x99, 0x09]"
          "[(''poor_signal'', IntV 100)]" "opened 3 [0x09]"
          "opened 3 []" "0xC8" "[0x01, 0x02]" "[0x02, 0x64]" "0x02" "0x98" "[0x01, 0x02]"]
      ev o big bad len
    by (simp add: opened_with_pending)
qed

section \<open>The raw-wave routine\<close>

text \<open>
  Claim C5. The raw-wave routine reads its two data bytes as a big-endian signed 16-bit
  integer: \<open>high * 256 + low\<close>, minus 65536 when that is at least 32768; the next index
  is five past the tag. When the byte after the tag is not 2 the routine raises
  ValueError (from the explicit test, or from \<open>int\<close> when the hex string of the byte
  is no decimal numeral).
\<close>

theorem raw_wave_signed_16:
  "(i + 1 < length payload \<and> payload ! (i + 1) = hex_of_byte b \<and> b \<noteq> 2
      \<longrightarrow> raw_wave payload i = Inl ValueError)
   \<and> (i + 3 < length payload \<and> payload ! (i + 1) = hex_of_byte 2
        \<and> payload ! (i + 2) = hex_of_byte hi \<and> payload ! (i + 3) = hex_of_byte lo
      \<longrightarrow> raw_wave payload i =
            Inr (IntV (if uint hi * 256 + uint lo \<ge> 32768
                       then uint hi * 256 + uint lo - 65536
                       else uint hi * 256 + uint lo), i + 5))"
proof (intro conjI impI)
  assume a: "i + 1 < length payload \<and> payload ! (i + 1) = hex_of_byte b \<and> b \<noteq> 2"
  then have "py_int (hex_of_byte b) 10 \<noteq> Inr 2"
    by (simp add: py_int_10_eq_2)
  with a show "raw_wave payload i = Inl ValueError"
    by (auto simp: raw_wave_def getitem_def split: sum.splits dest: py_int_error)
next
  assume a: "i + 3 < length payload \<and> payload ! (i + 1) = hex_of_byte 2
        \<and> payload ! (i + 2) = hex_of_byte hi \<and> payload ! (i + 3) = hex_of_byte lo"
  have lo: "payload ! Suc (Suc (Suc i)) = hex_of_byte lo"
    using a by (simp add: numeral_3_eq_3)
  have "slice payload (i + 2) (i + 2 + 2) = [payload ! (i + 2), payload ! (i + 2 + 1)]"
    using a by (intro slice_two) simp
  then have sl: "slice payload (Suc (Suc i)) (Suc (Suc (Suc (Suc i))))
      = [hex_of_byte hi, hex_of_byte lo]"
    using a lo by simp
  show "raw_wave payload i =
            Inr (IntV (if uint hi * 256 + uint lo \<ge> 32768
                       then uint hi * 256 + uint lo - 65536
                       else uint hi * 256 + uint lo), i + 5)"
    using a by (simp add: raw_wave_def getitem_def py_int_10_of_2 sl py_int_hex_of_byte_16 Let_def)
qed

text \<open>
  The theorem at the three sample pairs of the specification (7F FF, 80 00, FF FF) and
  at a length byte of 3.
\<close>

theorem raw_wave_signed_16_witness:
  "raw_wave [''80'', ''02'', ''7f'', ''ff''] 0 = Inr (IntV 32767, 5)
   \<and> raw_wave [''80'', ''02'', ''80'', ''00''] 0 = Inr (IntV (- 32768), 5)
   \<and> raw_wave [''80'', ''02'', ''ff'', ''ff''] 0 = Inr (IntV (- 1), 5)
   \<and> raw_wave [''80'', ''03'', ''ff'', ''ff''] 0 = Inl ValueError"
proof -
  have h: "hex_of_byte 0x02 = ''02''" "hex_of_byte 0x03 = ''03''" "hex_of_byte 0x7f = ''7f''"
    "hex_of_byte 0xff = ''ff''" "hex_of_byte 0x80 = ''80''" "hex_of_byte 0x00 = ''00''"
    by (simp_all add: hex_of_byte_def hexdigit_def)
  have "raw_wave [''80'', ''02'', ''7f'', ''ff''] 0 = Inr (IntV 32767, 5)"
    using raw_wave_signed_16 [of 0 "[''80'', ''02'', ''7f'', ''ff'']" 2 "0x7f" "0xff"]
    by (simp add: h)
  moreover have "raw_wave [''80'', ''02'', ''80'', ''00''] 0 = Inr (IntV (- 32768), 5)"
    using raw_wave_signed_16 [of 0 "[''80'', ''02'', ''80'', ''00'']" 2 "0x80" "0x00"]
    by (simp add: h)
  moreover have "raw_wave [''80'', ''02'', ''ff'', ''ff''] 0 = Inr (IntV (- 1), 5)"
    using raw_wave_signed_16 [of 0 "[''80'', ''02'', ''ff'', ''ff'']" 2 "0xff" "0xff"]
    by (simp add: h)
  moreover have "raw_wave [''80'', ''03'', ''ff'', ''ff''] 0 = Inl ValueError"
    using raw_wave_signed_16 [of 0 "[''80'', ''03'', ''ff'', ''ff'']" 3 "0xff" "0xff"]
    by (simp add: h)
  ultimately show ?thesis by simp
qed

section \<open>Scalar fields and unknown tags\<close>

text \<open>
  Claim C7 reads the keys of the table as byte values. The decoder looks a tag up by
  the decimal reading of its hex string: the byte 16 is the string 10, read as ten, which
  is no key, and the byte 22 is the string 16, which is the key of blink_strength.
\<close>

theorem scalar_code_16_counterexample:
  "get_payload_values (map hex_of_byte [16, 5]) 2 = Inl KeyError
   \<and> get_payload_values (map hex_of_byte [22, 5]) 2 = Inr [(''blink_strength'', IntV 5)]"
  by code_simp

text \<open>
  Claim C7 as amended. At a payload position inside the declared length that holds one
  of the tag bytes 0x02, 0x04, 0x05, 0x16 followed by a value byte, the decode loop
  stores the value byte under poor_signal, attention, meditation, blink_strength
  respectively and goes on two positions further. At a position that holds a byte other
  than 0x02, 0x04, 0x05, 0x16, 0x80, 0x83 the loop fails: with KeyError when both hex
  digits of the byte are decimal digits, with ValueError otherwise. A failure of the
  decoder on a packet with a valid checksum leaves the generator as that exception.
\<close>

theorem decode_scalar_fields:
  "((t, name) \<in> set scalar_tags \<and> int i < len \<and> i + 1 < length payload
      \<and> payload ! i = hex_of_byte t \<and> payload ! (i + 1) = hex_of_byte v \<longrightarrow>
      get_payload_loop payload len i result
        = get_payload_loop payload len (i + 2) (setitem result name (IntV (uint v))))
   \<and> (t' \<notin> set known_tags \<and> int i < len \<and> i < length payload
      \<and> payload ! i = hex_of_byte t' \<longrightarrow>
      get_payload_loop payload len i result
        = Inl (if reads_as_decimal t' then KeyError else ValueError))
   \<and> (is_open (sensor self) \<and> int (length B) = uint L \<and> uint L \<le> 169
      \<and> uint c = packet_checksum B
      \<and> get_payload_values (map hex_of_byte B) (uint L) = Inl e \<longrightarrow>
      values_next (with_pending self (0xAA # 0xAA # L # B @ c # rest))
        = Some (Raise e, with_pending self rest))"
proof (intro conjI impI)
  assume a: "(t, name) \<in> set scalar_tags \<and> int i < len \<and> i + 1 < length payload
      \<and> payload ! i = hex_of_byte t \<and> payload ! (i + 1) = hex_of_byte v"
  then have "decode_field payload i = Inr (name, IntV (uint v), i + 2)"
    by (intro decode_field_scalar) simp_all
  with a show "get_payload_loop payload len i result
        = get_payload_loop payload len (i + 2) (setitem result name (IntV (uint v)))"
    by (subst get_payload_loop.simps) simp
next
  assume a: "t' \<notin> set known_tags \<and> int i < len \<and> i < length payload
      \<and> payload ! i = hex_of_byte t'"
  then have "decode_field payload i = Inl (if reads_as_decimal t' then KeyError else ValueError)"
    by (intro decode_field_unknown) simp_all
  with a show "get_payload_loop payload len i result
        = Inl (if reads_as_decimal t' then KeyError else ValueError)"
    by (subst get_payload_loop.simps) simp
next
  assume a: "is_open (sensor self) \<and> int (length B) = uint L \<and> uint L \<le> 169
      \<and> uint c = packet_checksum B
      \<and> get_payload_values (map hex_of_byte B) (uint L) = Inl e"
  then show "values_next (with_pending self (0xAA # 0xAA # L # B @ c # rest))
        = Some (Raise e, with_pending self rest)"
    by (simp add: values_next_packet)
qed

text \<open>
  The theorem on the payloads 16 05 and 10 05, and on the second as a packet of the
  stream.
\<close>

theorem decode_scalar_fields_witness:
  "get_payload_loop [''16'', ''05''] 2 0 []
     = get_payload_loop [''16'', ''05''] 2 2 [(''blink_strength'', IntV 5)]
   \<and> get_payload_loop [''10'', ''05''] 2 0 [] = Inl KeyError
   \<and> values_next (opened 3 [0xAA, 0xAA, 0x02, 0x10, 0x05, 0xEA, 0x09])
       = Some (Raise KeyError, opened 3 [0x09])"
proof -
  have o: "is_open (sensor (opened 3 []))" by (rule opened_is_open)
  have h: "hex_of_byte 0x16 = ''16''" "hex_of_byte 0x05 = ''05''" "hex_of_byte 0x10 = ''10''"
    by (simp_all add: hex_of_byte_def hexdigit_def)
  have m: "(0x16, ''blink_strength'') \<in> set scalar_tags" "0x10 \<notin> set known_tags"
    by (simp_all add: scalar_tags_def known_tags_def)
  have d: "reads_as_decimal 0x10" by (simp add: reads_as_decimal_def)
  have cs: "uint (0xEA :: byte) = packet_checksum [0x10, 0x05]"
    by (simp add: packet_checksum_word)
  have e: "get_payload_values (map hex_of_byte [0x10, 0x05]) (uint (0x02 :: byte)) = Inl KeyError"
    by code_simp
  show ?thesis
    using decode_scalar_fields
      [of "0x16" "''blink_strength''" 0 2 "[''16'', ''05'']" "0x05" "[]" "0x10"
          "opened 3 []" "[0x10, 0x05]" "0x02" "0xEA" KeyError "[0x09]"]
      decode_scalar_fields
      [of "0x16" "''blink_strength''" 0 2 "[''10'', ''05'']" "0x05" "[]" "0x10"
          "opened 3 []" "[0x10, 0x05]" "0x02" "0xEA" KeyError "[0x09]"]
      o m d cs e
    by (simp add: h opened_with_pending)
qed

section \<open>Skipping raw-wave packets\<close>

text \<open>
  Under Python 2, with \<open>skip_raw_wave\<close> set, a valid packet that decodes to the single
  key raw_wave is passed over, and any other decoded packet is yielded as it is. A
  packet whose keys are not just raw_wave is yielded under either version.
\<close>

lemma values_next_skip_python2:
  assumes "is_open (sensor self)" and "int (length B) = uint L" and "uint L \<le> 169"
    and "uint c = packet_checksum B"
    and "get_payload_values (map hex_of_byte B) (uint L) = Inr result"
    and "skip_raw_wave self" and "major self = 2"
  shows "values_next (with_pending self (0xAA # 0xAA # L # B @ c # rest)) =
     (if keys result = [''raw_wave''] then values_next (with_pending self rest)
      else Some (Yield result, with_pending self rest))"
  using assms by (simp add: values_next_packet keys_eq_list_def)

lemma values_next_other_keys:
  assumes "is_open (sensor self)" and "int (length B) = uint L" and "uint L \<le> 169"
    and "uint c = packet_checksum B"
    and "get_payload_values (map hex_of_byte B) (uint L) = Inr result"
    and "keys result \<noteq> [''raw_wave'']"
  shows "values_next (with_pending self (0xAA # 0xAA # L # B @ c # rest)) =
     Some (Yield result, with_pending self rest)"
  using assms by (simp add: values_next_packet keys_eq_list_def)

text \<open>
  Claim C6 says that with \<open>skip_raw_wave\<close> set, a packet that decodes to raw_wave
  alone yields nothing. Under Python 3 the test \<open>result.keys() == ['raw_wave']\<close>
  compares a view with a list and is never true: the packet 80 02 00 01 (raw wave 1) is
  yielded although \<open>skip_raw_wave\<close> is set.
\<close>

theorem skip_raw_wave_python3:
  "values_next (opened 3 [0xAA, 0xAA, 0x04, 0x80, 0x02, 0x00, 0x01, 0x7C, 0x09])
     = Some (Yield [(''raw_wave'', IntV 1)], opened 3 [0x09])
   \<and> skip_raw_wave (opened 3 [0xAA, 0xAA, 0x04, 0x80, 0x02, 0x00, 0x01, 0x7C, 0x09])"
  by code_simp

section \<open>The composite field\<close>

text \<open>
  When the hex digits of the length byte are decimal digits, \<open>asic_eeg\<close> reads the 24
  bytes after it as eight big-endian 3-byte values, stores them under the eight wave
  names in order, and returns the index 26 past the tag.
\<close>

lemma slice_drop: "slice xs (i + a) (i + b) = slice (drop i xs) a b"
  by (simp add: slice_def add.commute)

lemma getitem_drop: "getitem xs (i + a) = getitem (drop i xs) a"
  by (auto simp: getitem_def)

lemma asic_eeg_loop_drop:
  "asic_eeg_loop counts payload (i + a) (i + b) result
     = asic_eeg_loop counts (drop i payload) a b result"
proof (induction counts arbitrary: a b result)
  case Nil
  show ?case by simp
next
  case (Cons count counts)
  have "asic_eeg_loop counts payload (i + b) (i + b + 3) r
     = asic_eeg_loop counts (drop i payload) b (b + 3) r" for r
    using Cons.IH [of b "b + 3" r] by (simp add: add.assoc)
  then show ?case
    by (simp add: slice_drop split: sum.splits)
qed


lemma upt_0_8: "[0..<8] = [0, 1, 2, 3, 4, 5, 6, 7]"
  by code_simp

lemma asic_eeg_at:
  "asic_eeg payload i =
     (case asic_eeg (drop i payload) 0 of Inl e \<Rightarrow> Inl e | Inr (v, j) \<Rightarrow> Inr (v, i + j))"
proof -
  have e1: "i + 1 = i + (0 + 1)" by simp
  have e2: "i + 1 + 1 = i + (0 + 1 + 1)" by simp
  have e3: "i + (0 + 1 + 1) + 3 = i + (0 + 1 + 1 + 3)" by simp
  have g: "getitem payload (i + 1) = getitem (drop i payload) (0 + 1)"
    by (simp only: e1 getitem_drop)
  have l: "asic_eeg_loop [0..<8] payload (i + 1 + 1) (i + 1 + 1 + 3) []
     = asic_eeg_loop [0..<8] (drop i payload) (0 + 1 + 1) (0 + 1 + 1 + 3) []"
    by (simp only: e2 e3 asic_eeg_loop_drop)
  show ?thesis
    unfolding asic_eeg_def Let_def
    by (simp only: g l) (simp split: sum.splits)
qed

lemma asic_eeg_block:
  assumes "reads_as_decimal lb"
  shows "asic_eeg (tag # hex_of_byte lb # map hex_of_byte [a0, a1, a2, b0, b1, b2, c0, c1, c2, d0, d1, d2, e0, e1, e2, f0, f1, f2, g0, g1, g2, h0, h1, h2] @ post) 0 =
     Inr (DictV
         [(''delta'', uint a0 * 65536 + uint a1 * 256 + uint a2),
          (''theta'', uint b0 * 65536 + uint b1 * 256 + uint b2),
          (''low_alpha'', uint c0 * 65536 + uint c1 * 256 + uint c2),
          (''high_alpha'', uint d0 * 65536 + uint d1 * 256 + uint d2),
          (''low_beta'', uint e0 * 65536 + uint e1 * 256 + uint e2),
          (''high_beta'', uint f0 * 65536 + uint f1 * 256 + uint f2),
          (''low_gamma'', uint g0 * 65536 + uint g1 * 256 + uint g2),
          (''mid_gamma'', uint h0 * 65536 + uint h1 * 256 + uint h2)], 26)"
proof -
  from assms obtain dl where dl: "py_int (hex_of_byte lb) 10 = Inr dl"
    using py_int_10_cases [of lb] by blast
  show ?thesis
    by (simp add: asic_eeg_def getitem_def dl upt_0_8 waves_def slice_def
          py_int_hex_of_byte_16 big_endian_def)
qed

lemma asic_eeg_decodes:
  assumes "reads_as_decimal lb"
    and "drop i payload = tag # hex_of_byte lb # map hex_of_byte [a0, a1, a2, b0, b1, b2, c0, c1, c2, d0, d1, d2, e0, e1, e2, f0, f1, f2, g0, g1, g2, h0, h1, h2] @ post"
  shows "asic_eeg payload i =
     Inr (DictV
         [(''delta'', uint a0 * 65536 + uint a1 * 256 + uint a2),
          (''theta'', uint b0 * 65536 + uint b1 * 256 + uint b2),
          (''low_alpha'', uint c0 * 65536 + uint c1 * 256 + uint c2),
          (''high_alpha'', uint d0 * 65536 + uint d1 * 256 + uint d2),
          (''low_beta'', uint e0 * 65536 + uint e1 * 256 + uint e2),
          (''high_beta'', uint f0 * 65536 + uint f1 * 256 + uint f2),
          (''low_gamma'', uint g0 * 65536 + uint g1 * 256 + uint g2),
          (''mid_gamma'', uint h0 * 65536 + uint h1 * 256 + uint h2)], i + 26)"
  by (simp only: asic_eeg_at [of payload i] assms(2) asic_eeg_block [OF assms(1)]
        sum.case prod.case)


text \<open>
  Claim C4 says the declared length byte is ignored whatever its value. The routine
  still evaluates \<open>int(payload[i])\<close> on its hex string before overwriting the result
  with 24: for the length byte 0x1A the string is 1a, \<open>int\<close> raises ValueError, and no
  mapping is produced although the 24 data bytes are there.
\<close>

theorem asic_eeg_length_byte_parsed:
  "asic_eeg (map hex_of_byte [0x83, 0x1A, 1, 2, 3, 4, 5, 6, 7, 8, 9, 10, 11, 12,
                               13, 14, 15, 16, 17, 18, 19, 20, 21, 22, 23, 24]) 0
     = Inl ValueError"
  by code_simp

section \<open>Termination of the decode loop\<close>

lemma get_payload_fuel_mono:
  "get_payload_fuel n payload len i result = Some r \<Longrightarrow> n \<le> m \<Longrightarrow>
   get_payload_fuel m payload len i result = Some r"
proof (induction n arbitrary: m i result)
  case 0
  then show ?case by simp
next
  case (Suc n)
  from Suc.prems(2) obtain m' where m: "m = Suc m'" "n \<le> m'"
    by (cases m) auto
  show ?case
    using Suc.prems(1) Suc.IH [OF _ m(2)] unfolding m(1)
    by (auto split: if_splits sum.splits)
qed

lemma get_payload_fuel_enough:
  "get_payload_fuel (Suc (nat (len - int i))) payload len i result
     = Some (get_payload_loop payload len i result)"
proof (induction payload len i result rule: get_payload_loop.induct)
  case (1 payload len i result)
  show ?case
  proof (cases "int i < len")
    case False
    then show ?thesis by simp
  next
    case True
    show ?thesis
    proof (cases "decode_field payload i")
      case (Inl e)
      with True show ?thesis by simp
    next
      case (Inr r)
      obtain name v j where r: "r = (name, v, j)" by (cases r)
      have "i < j" using Inr r decode_field_advances by blast
      with True have le: "Suc (nat (len - int j)) \<le> nat (len - int i)" by linarith
      have "get_payload_fuel (Suc (nat (len - int j))) payload len j (setitem result name v)
          = Some (get_payload_loop payload len j (setitem result name v))"
        using "1.IH" [OF True Inr r [THEN sym] refl] .
      then have "get_payload_fuel (nat (len - int i)) payload len j (setitem result name v)
          = Some (get_payload_loop payload len j (setitem result name v))"
        using le by (rule get_payload_fuel_mono)
      with True Inr r show ?thesis by simp
    qed
  qed
qed

text \<open>
  Claim C9. A routine that returns has moved the index forward: the scalar routine by
  2, the raw-wave routine by 5, the composite routine by 26, so every round of the loop
  of \<open>get_payload_values\<close> that does not raise increases the index. Hence the loop
  ends: from index \<open>i\<close> it needs at most \<open>length - i\<close> rounds and the final test, and
  the bounded loop given that many rounds returns what the loop returns.
\<close>

theorem decode_loop_terminates:
  "(read_default_value payload1 i1 = Inr (v1, j1) \<longrightarrow> j1 = i1 + 2)
   \<and> (raw_wave payload2 i2 = Inr (v2, j2) \<longrightarrow> j2 = i2 + 5)
   \<and> (asic_eeg payload3 i3 = Inr (v3, j3) \<longrightarrow> j3 = i3 + 26)
   \<and> (decode_field payload i = Inr (name, v, j) \<longrightarrow> i < j)
   \<and> get_payload_fuel (Suc (nat (len - int i))) payload len i result
       = Some (get_payload_loop payload len i result)"
  by (intro conjI impI read_default_value_next raw_wave_next asic_eeg_next
        decode_field_advances get_payload_fuel_enough)

text \<open>
  The theorem on a scalar field, a raw-wave field, a composite field, and the payload
  02 64 of declared length 2.
\<close>

theorem decode_loop_terminates_witness:
  "read_default_value [''02'', ''64''] 0 = Inr (IntV 100, 0 + 2)
   \<and> raw_wave [''80'', ''02'', ''7f'', ''ff''] 0 = Inr (IntV 32767, 0 + 5)
   \<and> asic_eeg [''83'', ''18'', ''01'', ''02'', ''03'', ''04'', ''05'', ''06'', ''07'', ''08'', ''09'', ''0a'', ''0b'', ''0c'', ''0d'', ''0e'', ''0f'', ''10'', ''11'', ''12'', ''13'', ''14'', ''15'', ''16'', ''17'', ''18''] 0 = Inr (DictV [(''delta'', 66051), (''theta'', 263430), (''low_alpha'', 460809), (''high_alpha'', 658188), (''low_beta'', 855567), (''high_beta'', 1052946), (''low_gamma'', 1250325), (''mid_gamma'', 1447704)], 0 + 26)
   \<and> get_payload_fuel (Suc (nat (2 - int 0))) [''02'', ''64''] 2 0 []
       = Some (Inr [(''poor_signal'', IntV 100)])"
proof -
  have f1: "read_default_value [''02'', ''64''] 0 = Inr (IntV 100, 2)"
    by code_simp
  have f2: "raw_wave [''80'', ''02'', ''7f'', ''ff''] 0 = Inr (IntV 32767, 5)"
    by code_simp
  have f3: "asic_eeg [''83'', ''18'', ''01'', ''02'', ''03'', ''04'', ''05'', ''06'', ''07'', ''08'', ''09'', ''0a'', ''0b'', ''0c'', ''0d'', ''0e'', ''0f'', ''10'', ''11'', ''12'', ''13'', ''14'', ''15'', ''16'', ''17'', ''18''] 0 = Inr (DictV [(''delta'', 66051), (''theta'', 263430), (''low_alpha'', 460809), (''high_alpha'', 658188), (''low_beta'', 855567), (''high_beta'', 1052946), (''low_gamma'', 1250325), (''mid_gamma'', 1447704)], 26)"
    by code_simp
  have f4: "decode_field [''02'', ''64''] 0 = Inr (''poor_signal'', IntV 100, 2)"
    by code_simp
  have f5: "get_payload_loop [''02'', ''64''] 2 0 [] = Inr [(''poor_signal'', IntV 100)]"
    by code_simp
  show ?thesis
    using decode_loop_terminates
      [of "[''02'', ''64'']" 0 "IntV 100" 2
          "[''80'', ''02'', ''7f'', ''ff'']" 0 "IntV 32767" 5
          "[''83'', ''18'', ''01'', ''02'', ''03'', ''04'', ''05'', ''06'', ''07'', ''08'', ''09'', ''0a'', ''0b'', ''0c'', ''0d'', ''0e'', ''0f'', ''10'', ''11'', ''12'', ''13'', ''14'', ''15'', ''16'', ''17'', ''18'']" 0 "DictV [(''delta'', 66051), (''theta'', 263430), (''low_alpha'', 460809), (''high_alpha'', 658188), (''low_beta'', 855567), (''high_beta'', 1052946), (''low_gamma'', 1250325), (''mid_gamma'', 1447704)]" 26
          "[''02'', ''64'']" 0 "''poor_signal''" "IntV 100" 2 2 "[]"]
      f1 f2 f3 f4 f5
    by (simp only: simp_thms add_0)
qed

section \<open>Truncated fields\<close>

text \<open>
  Claim C10. The decoder is partial on truncated fields: a payload of declared length 1
  whose single byte is a scalar tag has no value byte, and \<open>get_payload_values\<close>
  fails with IndexError, not with a checksum or unknown-code error.
\<close>

theorem decode_truncated_scalar:
  "get_payload_values [hex_of_byte 0x02] 1 = Inl IndexError
   \<and> get_payload_values [hex_of_byte 0x04] 1 = Inl IndexError
   \<and> get_payload_values [hex_of_byte 0x05] 1 = Inl IndexError
   \<and> get_payload_values [hex_of_byte 0x16] 1 = Inl IndexError"
  by code_simp

section \<open>The constructor\<close>

text \<open>
  Claim C8 says the timeout argument reaches the serial port unchanged. The constructor
  passes the port and the baud rate on, and the literal 10 as timeout: built with a
  timeout of 5, the adapter's port has timeout 10.
\<close>

theorem init_ignores_timeout:
  "map_sum id (\<lambda>self. (port (sensor self), baudrate (sensor self), timeout (sensor self)))
     (init ''/dev/rfcomm0'' 57600 5 True 3 incoming)
     = Inr (''/dev/rfcomm0'', 57600, 10)"
  by (simp add: init_def Serial_def)

end
